theory Spec2Isabelle
  imports Complex_Main
begin

section \<open>Most active channel lookup and image endpoint\<close>

text \<open>
  A shallow embedding of the channel resolver \<^verbatim>\<open>fetchMostActiveChannelImage\<close> and of the
  HTTP \<^verbatim>\<open>handler\<close> that composites the channel image onto a template.

  Conventions of the embedding:
  \<^item> JavaScript strings are \<open>string\<close>; \<^verbatim>\<open>toLowerCase\<close> is modelled on ASCII letters.
  \<^item> Remote calls, image loads and the clock are inputs of the model (an environment
    record); a rejected promise is a value.
  \<^item> Every \<^verbatim>\<open>throw\<close> of the resolver is a constructor of \<open>resolver_error\<close>; the message
    of the thrown \<^verbatim>\<open>Error\<close> is computed by \<open>message\<close>, since the handler matches on it.
  \<^item> Plain JavaScript objects used as dictionaries are association lists of their own
    properties in creation order; property reads also see the members inherited from
    \<^verbatim>\<open>Object.prototype\<close>, and \<^verbatim>\<open>Object.entries\<close> enumerates array-index keys first.
  \<^item> JavaScript numbers used for geometry are modelled by exact real arithmetic; rounding
    of IEEE doubles is not modelled. Counts are natural numbers.
\<close>

subsection \<open>JavaScript strings\<close>

definition toLowerCase :: "string \<Rightarrow> string" where
  "toLowerCase s =
     map (\<lambda>c. let n = (of_char c :: nat) in if 65 \<le> n \<and> n \<le> 90 then char_of (n + 32) else c) s"

fun startsWith :: "string \<Rightarrow> string \<Rightarrow> bool" where
  "startsWith s [] = True"
| "startsWith [] (p # ps) = False"
| "startsWith (c # cs) (p # ps) = (c = p \<and> startsWith cs ps)"

text \<open>\<^verbatim>\<open>s.includes(sub)\<close>: \<open>sub\<close> occurs in \<open>s\<close> as a contiguous substring.\<close>

fun js_includes :: "string \<Rightarrow> string \<Rightarrow> bool" where
  "js_includes [] sub = (sub = [])"
| "js_includes (c # cs) sub = (startsWith (c # cs) sub \<or> js_includes cs sub)"

subsection \<open>Plain objects as dictionaries\<close>

text \<open>
  The property names every plain object inherits from \<^verbatim>\<open>Object.prototype\<close>. Each of
  them reads as a function (or, for \<^verbatim>\<open>__proto__\<close>, as the prototype object itself), so
  each is truthy.
\<close>

definition object_prototype_keys :: "string list" where
  "object_prototype_keys =
     [''constructor'', ''__defineGetter__'', ''__defineSetter__'', ''hasOwnProperty'',
      ''__lookupGetter__'', ''__lookupSetter__'', ''isPrototypeOf'', ''propertyIsEnumerable'',
      ''toString'', ''valueOf'', ''__proto__'', ''toLocaleString'']"

definition is_digit :: "char \<Rightarrow> bool" where
  "is_digit c = (48 \<le> (of_char c :: nat) \<and> (of_char c :: nat) \<le> 57)"

definition digits_value :: "string \<Rightarrow> nat" where
  "digits_value s = foldl (\<lambda>n c. 10 * n + ((of_char c :: nat) - 48)) 0 s"

text \<open>
  An array index is the canonical decimal spelling of an integer from 0 to \<open>2^32 - 2\<close>.
  \<^verbatim>\<open>Object.entries\<close> lists the own keys that are array indices first, in ascending
  numeric order, and the remaining string keys after them in creation order.
\<close>

definition is_array_index :: "string \<Rightarrow> bool" where
  "is_array_index s =
     (s \<noteq> [] \<and> list_all is_digit s \<and> (s = ''0'' \<or> hd s \<noteq> CHR ''0'')
      \<and> digits_value s \<le> 4294967294)"

definition object_entries :: "(string \<times> 'v) list \<Rightarrow> (string \<times> 'v) list" where
  "object_entries obj =
     sort_key (\<lambda>(k, v). digits_value k) (filter (\<lambda>(k, v). is_array_index k) obj)
     @ filter (\<lambda>(k, v). \<not> is_array_index k) obj"

subsection \<open>Data model\<close>

record MostActiveChannelImage =
  channelImageUrl :: string
  address :: string
  channelName :: string

text \<open>Of an identity record only \<^verbatim>\<open>fid\<close> is ever read.\<close>

record identity =
  fid :: nat

type_synonym NeynarUserResponse = "string \<rightharpoonup> identity list"

record channel =
  ch_id :: string
  ch_name :: string
  ch_imageUrl :: "string option"
  ch_image_url :: "string option"

record cast =
  hash :: string
  cast_channel :: "channel option"

record NeynarUserCastResponse =
  casts :: "cast list"

record activity =
  act_count :: nat
  act_imageUrl :: string
  act_name :: string

text \<open>The own properties of \<^verbatim>\<open>channelActivity\<close>, in creation order.\<close>

type_synonym channelActivity = "(string \<times> activity) list"

subsection \<open>Step 3: counting casts per channel\<close>

text \<open>\<^verbatim>\<open>image_url || imageUrl || ""\<close>: an absent or empty string is falsy.\<close>

definition channelImageUrl_of :: "channel \<Rightarrow> string" where
  "channelImageUrl_of ch =
     (case ch_image_url ch of
        Some u \<Rightarrow> if u \<noteq> [] then u
                  else (case ch_imageUrl ch of Some v \<Rightarrow> v | None \<Rightarrow> [])
      | None \<Rightarrow> (case ch_imageUrl ch of Some v \<Rightarrow> v | None \<Rightarrow> []))"

text \<open>
  \<^verbatim>\<open>channelActivity[id]\<close> is truthy when \<open>id\<close> is an own property (its value is an
  object) or a member inherited from \<^verbatim>\<open>Object.prototype\<close>.
\<close>

definition has_truthy :: "channelActivity \<Rightarrow> string \<Rightarrow> bool" where
  "has_truthy acc k = (k \<in> fst ` set acc \<or> k \<in> set object_prototype_keys)"

text \<open>
  \<^verbatim>\<open>channelActivity[id].count++\<close>: the own entry is incremented. When \<open>id\<close> is only an
  inherited member, the write goes to that inherited function object and
  \<^verbatim>\<open>channelActivity\<close> keeps its own properties.
\<close>

definition increment :: "channelActivity \<Rightarrow> string \<Rightarrow> channelActivity" where
  "increment acc k =
     map (\<lambda>(k', a). if k' = k then (k', a\<lparr>act_count := act_count a + 1\<rparr>) else (k', a)) acc"

definition scan_cast :: "channelActivity \<Rightarrow> cast \<Rightarrow> channelActivity" where
  "scan_cast acc c =
     (case cast_channel c of
        None \<Rightarrow> acc
      | Some ch \<Rightarrow>
          let acc' = (if \<not> has_truthy acc (ch_id ch)
                      then acc @ [(ch_id ch, \<lparr>act_count = 0,
                                              act_imageUrl = channelImageUrl_of ch,
                                              act_name = ch_name ch\<rparr>)]
                      else acc)
          in increment acc' (ch_id ch))"

definition count_channels :: "cast list \<Rightarrow> channelActivity" where
  "count_channels cs = foldl scan_cast [] cs"

subsection \<open>Step 4: the channel with the highest activity\<close>

definition reduce_step ::
  "(string \<times> activity) option \<Rightarrow> string \<times> activity \<Rightarrow> (string \<times> activity) option" where
  "reduce_step mx e =
     (case mx of
        None \<Rightarrow> Some e
      | Some m \<Rightarrow> if act_count (snd e) > act_count (snd m) then Some e else Some m)"

definition mostActive :: "channelActivity \<Rightarrow> (string \<times> activity) option" where
  "mostActive acc = foldl reduce_step None (object_entries acc)"

text \<open>Lines 78 to 115: from the cast list to the returned value (\<open>None\<close> is \<^verbatim>\<open>null\<close>).\<close>

definition select_channel :: "string \<Rightarrow> cast list \<Rightarrow> MostActiveChannelImage option" where
  "select_channel addr cs =
     (if cs = [] then None
      else (case mostActive (count_channels cs) of
              None \<Rightarrow> None
            | Some (channelId, a) \<Rightarrow>
                Some \<lparr>channelImageUrl = act_imageUrl a, address = addr,
                      channelName = act_name a\<rparr>))"

subsection \<open>The resolver\<close>

text \<open>
  The value the resolver receives: a query parameter is absent (\<^verbatim>\<open>undefined\<close>), a string,
  or an array of strings when the parameter is repeated.
\<close>

datatype query_value = Absent | Str string | StrArray "string list"

text \<open>
  What a \<^verbatim>\<open>catch\<close> sees of a thrown value: whether \<^verbatim>\<open>axios.isAxiosError\<close> holds, the
  status of its \<^verbatim>\<open>response\<close> when there is a response with a numeric status, and its
  rendering as a string (\<^verbatim>\<open>${error}\<close>).
\<close>

record caught =
  isAxiosError :: bool
  response_status :: "nat option"
  text_of :: string

datatype 'a remote = Resp 'a | Thrown caught

text \<open>A decoded image; only its pixel dimensions are read.\<close>

record image =
  width :: nat
  height :: nat

text \<open>
  The environment of one request: the two remote calls (the response \<^verbatim>\<open>data\<close> may be
  absent, as the optional chaining of the source allows), the image loader (\<open>None\<close> when
  the load is rejected), the working directory and the clock in milliseconds.
\<close>

record env =
  user_lookup :: "string \<Rightarrow> NeynarUserResponse option remote"
  casts_lookup :: "nat \<Rightarrow> NeynarUserCastResponse option remote"
  loadImage :: "string \<Rightarrow> image option"
  cwd :: string
  now :: nat

datatype resolver_error =
    InvalidInput
  | AuthFailure
  | Forbidden
  | UpstreamServerError
  | UpstreamUnavailable string string

fun message :: "resolver_error \<Rightarrow> string" where
  "message InvalidInput = ''Invalid address provided''"
| "message AuthFailure = ''API authentication failed''"
| "message Forbidden = ''Access forbidden (403)''"
| "message UpstreamServerError = ''Neynar server error''"
| "message (UpstreamUnavailable addr cause) =
     ''Failed to fetch most active channel image for address '' @ addr @ '': '' @ cause"

text \<open>
  Reading \<^verbatim>\<open>[0].fid\<close> of a member inherited from \<^verbatim>\<open>Object.prototype\<close> throws a
  \<^verbatim>\<open>TypeError\<close>, which is not an axios error.
\<close>

definition type_error :: caught where
  "type_error =
     \<lparr>isAxiosError = False, response_status = None,
      text_of = ''TypeError: Cannot read properties of undefined (reading 'fid')''\<rparr>"

text \<open>
  The body of the \<^verbatim>\<open>try\<close> block: \<open>Inl\<close> is a value thrown inside it. The response is
  read at the lower-cased address. When the response has no own entry there and the key
  names a member of \<^verbatim>\<open>Object.prototype\<close> (of the lower-case names these are
  \<^verbatim>\<open>constructor\<close> and \<^verbatim>\<open>__proto__\<close>), the read yields that member: it is truthy, its
  \<^verbatim>\<open>length\<close> is not 0 and its element 0 is \<^verbatim>\<open>undefined\<close>.
\<close>

definition try_block :: "env \<Rightarrow> string \<Rightarrow> caught + MostActiveChannelImage option" where
  "try_block env addr =
     (let addressKey = toLowerCase addr in
      case user_lookup env addr of
        Thrown e \<Rightarrow> Inl e
      | Resp None \<Rightarrow> Inr None
      | Resp (Some data) \<Rightarrow>
          (case data addressKey of
             None \<Rightarrow> if addressKey \<in> set object_prototype_keys then Inl type_error else Inr None
           | Some [] \<Rightarrow> Inr None
           | Some (user # _) \<Rightarrow>
               (let userFid = fid user in
                case casts_lookup env userFid of
                  Thrown e \<Rightarrow> Inl e
                | Resp None \<Rightarrow> Inr None
                | Resp (Some r) \<Rightarrow> Inr (select_channel addr (casts r)))))"

definition catch_block :: "string \<Rightarrow> caught \<Rightarrow> resolver_error + MostActiveChannelImage option" where
  "catch_block addr e =
     (case (if isAxiosError e then response_status e else None) of
        Some st \<Rightarrow>
          if st = 401 then Inl AuthFailure
          else if st = 403 then Inl Forbidden
          else if st = 404 then Inr None
          else if st \<ge> 500 then Inl UpstreamServerError
          else Inl (UpstreamUnavailable addr (text_of e))
      | None \<Rightarrow> Inl (UpstreamUnavailable addr (text_of e)))"

definition fetchMostActiveChannelImage ::
  "env \<Rightarrow> query_value \<Rightarrow> resolver_error + MostActiveChannelImage option" where
  "fetchMostActiveChannelImage env a =
     (case a of
        Str s \<Rightarrow>
          if s = [] then Inl InvalidInput
          else (case try_block env s of Inl e \<Rightarrow> catch_block s e | Inr r \<Rightarrow> Inr r)
      | _ \<Rightarrow> Inl InvalidInput)"

text \<open>\<^verbatim>\<open>export const fetchFirstMintedArtwork = fetchMostActiveChannelImage\<close>\<close>

definition fetchFirstMintedArtwork ::
  "env \<Rightarrow> query_value \<Rightarrow> resolver_error + MostActiveChannelImage option" where
  "fetchFirstMintedArtwork = fetchMostActiveChannelImage"

subsection \<open>The handler\<close>

datatype header_value = Text string | IsoTime nat

record json_body =
  error :: string
  retryAfter :: "nat option"
  message_field :: "string option"

text \<open>
  Calls on the 2-D context, in order. Coordinates are exact reals. Canvas calls are
  taken not to throw.
\<close>

datatype draw_op =
    DrawImageAt image real real
  | DrawImageScaled image real real real real
  | StrokeStyle string
  | LineWidth real
  | StrokeRect real real real real
  | DrawDegenerate image

record canvas =
  canvas_width :: nat
  canvas_height :: nat
  ops :: "draw_op list"

datatype body = Json json_body | Png canvas

text \<open>
  A response whose status was never set has status 200. The headers are those the handler
  sets itself, in call order.
\<close>

record response =
  status :: nat
  headers :: "(string \<times> header_value) list"
  body :: body

definition truthy :: "query_value \<Rightarrow> bool" where
  "truthy a = (case a of Absent \<Rightarrow> False | Str s \<Rightarrow> s \<noteq> [] | StrArray _ \<Rightarrow> True)"

definition templatePath :: "env \<Rightarrow> string" where
  "templatePath env = cwd env @ ''/public/template.png''"

definition placeholder_url :: string where
  "placeholder_url = ''https://www.svgrepo.com/show/508699/landscape-placeholder.svg''"

text \<open>
  Lines 31 to 67. The caught value is an \<^verbatim>\<open>Error\<close> made by the resolver, which has no
  \<^verbatim>\<open>response\<close> property, so the third test of the first condition is false.
\<close>

definition error_response :: "env \<Rightarrow> resolver_error \<Rightarrow> response" where
  "error_response env e =
     (if js_includes (message e) ''Rate limit exceeded'' \<or> js_includes (message e) ''429''
      then \<lparr>status = 429,
            headers = [(''Retry-After'', Text ''60''),
                       (''X-RateLimit-Reset'', IsoTime (now env + 60000))],
            body = Json \<lparr>error = ''Rate limit exceeded. Please try again later.'',
                         retryAfter = Some 60,
                         message_field =
                           Some ''Too many requests to external API. Please wait before retrying.''\<rparr>\<rparr>
      else if js_includes (message e) ''Invalid address''
      then \<lparr>status = 400, headers = [],
            body = Json \<lparr>error = ''Invalid Ethereum address provided'',
                         retryAfter = None,
                         message_field =
                           Some ''Please provide a valid Ethereum address in 0x format.''\<rparr>\<rparr>
      else \<lparr>status = 503, headers = [(''Retry-After'', Text ''30'')],
            body = Json \<lparr>error =
                           ''External API service temporarily unavailable. Please try again later.'',
                         retryAfter = None,
                         message_field =
                           Some ''The external API is currently experiencing issues. Please retry in 30 seconds.''\<rparr>\<rparr>)"

text \<open>
  Lines 105 to 119: the display size of an artwork of the given pixel dimensions. With a
  zero width or height the source computes with \<^verbatim>\<open>Infinity\<close> or \<^verbatim>\<open>NaN\<close>, which the
  reals do not have: that case is \<open>None\<close>.
\<close>

definition display_size :: "nat \<Rightarrow> nat \<Rightarrow> (real \<times> real) option" where
  "display_size w h =
     (if w = 0 \<or> h = 0 then None
      else
        let maxWidth = 670; maxHeight = 670;
            aspectRatio = real w / real h;
            displayWidth = maxWidth;
            displayHeight = maxWidth / aspectRatio
        in if displayHeight > maxHeight
           then Some (maxHeight * aspectRatio, maxHeight)
           else Some (displayWidth, displayHeight))"

text \<open>Lines 103 to 132: the calls that draw the artwork and its border.\<close>

definition draw_artwork :: "nat \<Rightarrow> nat \<Rightarrow> image \<Rightarrow> draw_op list" where
  "draw_artwork cw ch img =
     (case display_size (width img) (height img) of
        None \<Rightarrow> [DrawDegenerate img]
      | Some (displayWidth, displayHeight) \<Rightarrow>
          let shiftUp = 28.5; shiftRight = 0.1;
              x = (real cw - displayWidth) / 2 + shiftRight;
              y = (real ch - displayHeight) / 2 - shiftUp
          in [DrawImageScaled img x y displayWidth displayHeight,
              StrokeStyle ''rgba(255, 255, 255, 0.3)'',
              LineWidth 2,
              StrokeRect (x - 2) (y - 2) (displayWidth + 4) (displayHeight + 4)])"

text \<open>Lines 76 to 100: the artwork to draw, if any.\<close>

definition choose_artwork :: "env \<Rightarrow> MostActiveChannelImage option \<Rightarrow> image option" where
  "choose_artwork env firstMintedArtwork =
     (let (artworkImage, usePlaceholder) =
            (case firstMintedArtwork of
               None \<Rightarrow> (None, True)
             | Some r \<Rightarrow>
                 if channelImageUrl r \<noteq> []
                 then (case loadImage env (channelImageUrl r) of
                         Some img \<Rightarrow> (Some img, False)
                       | None \<Rightarrow> (None, True))
                 else (None, True))
      in if usePlaceholder
         then (case loadImage env placeholder_url of
                 Some img \<Rightarrow> Some img
               | None \<Rightarrow> artworkImage)
         else artworkImage)"

text \<open>Lines 69 to 140.\<close>

definition render :: "env \<Rightarrow> image \<Rightarrow> MostActiveChannelImage option \<Rightarrow> response" where
  "render env templateImage firstMintedArtwork =
     (let cw = width templateImage; ch = height templateImage;
          background = [DrawImageAt templateImage 0 0];
          artwork = (case choose_artwork env firstMintedArtwork of
                       None \<Rightarrow> []
                     | Some img \<Rightarrow> draw_artwork cw ch img)
      in \<lparr>status = 200,
          headers = [(''Content-Type'', Text ''image/png''),
                     (''Cache-Control'', Text ''public, max-age=300''),
                     (''X-Content-Type-Options'', Text ''nosniff''),
                     (''X-Frame-Options'', Text ''DENY'')],
          body = Png \<lparr>canvas_width = cw, canvas_height = ch, ops = background @ artwork\<rparr>\<rparr>)"

definition internal_error :: response where
  "internal_error =
     \<lparr>status = 500, headers = [],
      body = Json \<lparr>error = ''Internal server error'', retryAfter = None,
                   message_field =
                     Some ''An unexpected error occurred while processing your request.''\<rparr>\<rparr>"

definition handler :: "env \<Rightarrow> query_value \<Rightarrow> response" where
  "handler env a =
     (if \<not> truthy a
      then \<lparr>status = 400, headers = [],
            body = Json \<lparr>error = ''Valid Ethereum address is required'',
                         retryAfter = None, message_field = None\<rparr>\<rparr>
      else (case loadImage env (templatePath env) of
              None \<Rightarrow> internal_error
            | Some templateImage \<Rightarrow>
                (case fetchMostActiveChannelImage env a of
                   Inl e \<Rightarrow> error_response env e
                 | Inr firstMintedArtwork \<Rightarrow> render env templateImage firstMintedArtwork)))"

subsection \<open>Vocabulary of the properties\<close>

text \<open>A cast names channel \<open>k\<close> when it has a channel whose id is \<open>k\<close>.\<close>

definition names :: "string \<Rightarrow> cast \<Rightarrow> bool" where
  "names k c = (case cast_channel c of None \<Rightarrow> False | Some ch \<Rightarrow> ch_id ch = k)"

definition casts_naming :: "string \<Rightarrow> cast list \<Rightarrow> nat" where
  "casts_naming k cs = length (filter (names k) cs)"

text \<open>The position of the first cast naming \<open>k\<close> (the length of the list when none does).\<close>

definition first_naming :: "string \<Rightarrow> cast list \<Rightarrow> nat" where
  "first_naming k cs = length (takeWhile (\<lambda>c. \<not> names k c) cs)"

definition no_inherited_ids :: "cast list \<Rightarrow> bool" where
  "no_inherited_ids cs =
     list_all (\<lambda>c. case cast_channel c of None \<Rightarrow> True
                    | Some ch \<Rightarrow> ch_id ch \<notin> set object_prototype_keys) cs"

definition no_index_ids :: "cast list \<Rightarrow> bool" where
  "no_index_ids cs =
     list_all (\<lambda>c. case cast_channel c of None \<Rightarrow> True
                    | Some ch \<Rightarrow> \<not> is_array_index (ch_id ch)) cs"

text \<open>
  Where \<^verbatim>\<open>Object.entries\<close> puts the key \<open>k\<close> relative to another key \<open>k'\<close>: array
  indices come first, in ascending numeric order; the other keys follow in the order in
  which their first casts appear.
\<close>

definition enumerated_before :: "string \<Rightarrow> string \<Rightarrow> cast list \<Rightarrow> bool" where
  "enumerated_before k k' cs =
     (if is_array_index k
      then (is_array_index k' \<longrightarrow> digits_value k < digits_value k')
      else \<not> is_array_index k' \<and> first_naming k cs < first_naming k' cs)"

definition is_nonempty_string :: "query_value \<Rightarrow> bool" where
  "is_nonempty_string a = (case a of Str s \<Rightarrow> s \<noteq> [] | _ \<Rightarrow> False)"

text \<open>A caught value that none of the status tests of the \<^verbatim>\<open>catch\<close> block picks out.\<close>

definition unclassified :: "caught \<Rightarrow> bool" where
  "unclassified e =
     (case (if isAxiosError e then response_status e else None) of
        None \<Rightarrow> True
      | Some st \<Rightarrow> st \<noteq> 401 \<and> st \<noteq> 403 \<and> st \<noteq> 404 \<and> st < 500)"

subsection \<open>Concrete inputs\<close>

definition example_cast :: "string \<Rightarrow> string \<Rightarrow> string \<Rightarrow> cast" where
  "example_cast k nm url =
     \<lparr>hash = ''0xhash'', cast_channel =
        Some \<lparr>ch_id = k, ch_name = nm, ch_imageUrl = None, ch_image_url = Some url\<rparr>\<rparr>"

definition example_loader :: "string \<Rightarrow> image option" where
  "example_loader u =
     (if u = ''/app/public/template.png'' then Some \<lparr>width = 1000, height = 1000\<rparr>
      else if u = placeholder_url then Some \<lparr>width = 200, height = 100\<rparr>
      else None)"

text \<open>An environment whose identity lookup is rejected with \<open>e\<close>.\<close>

definition failing_env :: "caught \<Rightarrow> env" where
  "failing_env e =
     \<lparr>user_lookup = (\<lambda>a. Thrown e), casts_lookup = (\<lambda>n. Resp None),
      loadImage = example_loader, cwd = ''/app'', now = 1000\<rparr>"

text \<open>An environment where every address has one identity, whose popular casts are \<open>cs\<close>.\<close>

definition casts_env :: "cast list \<Rightarrow> env" where
  "casts_env cs =
     \<lparr>user_lookup = (\<lambda>a. Resp (Some [toLowerCase a \<mapsto> [\<lparr>fid = 7\<rparr>]])),
      casts_lookup = (\<lambda>n. Resp (Some \<lparr>casts = cs\<rparr>)),
      loadImage = example_loader, cwd = ''/app'', now = 1000\<rparr>"

definition status_error :: "nat \<Rightarrow> string \<Rightarrow> caught" where
  "status_error st txt = \<lparr>isAxiosError = True, response_status = Some st, text_of = txt\<rparr>"

definition timeout_error :: caught where
  "timeout_error =
     \<lparr>isAxiosError = True, response_status = None,
      text_of = ''AxiosError: timeout of 10000ms exceeded''\<rparr>"

definition rate_limit_error :: caught where
  "rate_limit_error = status_error 429 ''AxiosError: Request failed with status code 429''"

definition not_found_error :: caught where
  "not_found_error = status_error 404 ''AxiosError: Request failed with status code 404''"

definition tie_casts :: "cast list" where
  "tie_casts = [example_cast ''b'' ''B'' ''img-b'', example_cast ''1'' ''One'' ''img-1'']"

definition ab_casts :: "cast list" where
  "ab_casts = [example_cast ''a'' ''A'' ''img-a'', example_cast ''b'' ''B'' ''img-b'',
               example_cast ''b'' ''B2'' ''img-b2'', example_cast ''a'' ''A2'' ''img-a2'']"

section \<open>Properties\<close>

lemmas scan_defs = count_channels_def scan_cast_def has_truthy_def object_prototype_keys_def increment_def channelImageUrl_of_def

lemmas select_defs = select_channel_def mostActive_def object_entries_def is_array_index_def is_digit_def digits_value_def reduce_step_def

lemmas handler_defs = handler_def truthy_def templatePath_def fetchMostActiveChannelImage_def
  try_block_def catch_block_def error_response_def failing_env_def example_loader_def

subsection \<open>The scan over the casts\<close>

text \<open>
  One step of the loop does one of four things: nothing (no channel), an increment of the
  own entry, nothing again (the id is only an inherited member, so no entry is made and the
  increment lands on the inherited object), or the creation of an entry with count 1.
\<close>

lemma increment_absent: "k \<notin> fst ` set acc \<Longrightarrow> increment acc k = acc"
  by (induction acc) (auto simp: increment_def)

lemma keys_increment: "map fst (increment acc k) = map fst acc"
  by (induction acc) (auto simp: increment_def)

lemma increment_entry:
  "(k, a) \<in> set (increment acc k') \<Longrightarrow>
   \<exists>b. (k, b) \<in> set acc \<and> act_imageUrl a = act_imageUrl b \<and> act_name a = act_name b
       \<and> act_count a = (if k = k' then act_count b + 1 else act_count b)"
  by (auto simp: increment_def split: if_splits)

lemma scan_cast_none: "cast_channel c = None \<Longrightarrow> scan_cast acc c = acc"
  by (simp add: scan_cast_def)

lemma scan_cast_own:
  "cast_channel c = Some ch \<Longrightarrow> ch_id ch \<in> fst ` set acc \<Longrightarrow>
   scan_cast acc c = increment acc (ch_id ch)"
  by (simp add: scan_cast_def has_truthy_def)

lemma scan_cast_inherited:
  "cast_channel c = Some ch \<Longrightarrow> ch_id ch \<notin> fst ` set acc \<Longrightarrow>
   ch_id ch \<in> set object_prototype_keys \<Longrightarrow> scan_cast acc c = acc"
  by (simp add: scan_cast_def has_truthy_def increment_absent)

lemma scan_cast_new:
  "cast_channel c = Some ch \<Longrightarrow> ch_id ch \<notin> fst ` set acc \<Longrightarrow>
   ch_id ch \<notin> set object_prototype_keys \<Longrightarrow>
   scan_cast acc c =
     acc @ [(ch_id ch, \<lparr>act_count = 1, act_imageUrl = channelImageUrl_of ch, act_name = ch_name ch\<rparr>)]"
  by (simp add: scan_cast_def has_truthy_def increment_def Let_def) (use increment_absent [unfolded increment_def] in auto)

lemma count_channels_snoc: "count_channels (cs @ [c]) = scan_cast (count_channels cs) c"
  by (simp add: count_channels_def)

lemma count_channels_Nil: "count_channels [] = []"
  by (simp add: count_channels_def)

text \<open>
  The own keys are the channel ids named by some cast, without the names inherited from
  \<^verbatim>\<open>Object.prototype\<close>; they are distinct; each count is the number of casts naming
  the channel; image and name come from the first such cast; and the keys are created in
  the order of first appearance.
\<close>

lemma keys_count_channels:
  "fst ` set (count_channels cs) = {k. \<exists>c\<in>set cs. names k c} - set object_prototype_keys"
proof (induction cs rule: rev_induct)
  case Nil
  show ?case by (simp add: count_channels_Nil)
next
  case (snoc c cs)
  show ?case
  proof (cases "cast_channel c")
    case None
    then have "\<And>k. \<not> names k c" by (simp add: names_def)
    with None snoc show ?thesis
      by (auto simp: count_channels_snoc scan_cast_none)
  next
    case (Some ch)
    then have nm: "\<And>k. names k c = (ch_id ch = k)" by (simp add: names_def)
    have img: "\<And>acc k. fst ` set (increment acc k) = fst ` set acc"
      by (metis keys_increment set_map)
    consider (own) "ch_id ch \<in> fst ` set (count_channels cs)"
      | (inh) "ch_id ch \<notin> fst ` set (count_channels cs)" "ch_id ch \<in> set object_prototype_keys"
      | (new) "ch_id ch \<notin> fst ` set (count_channels cs)" "ch_id ch \<notin> set object_prototype_keys"
      by blast
    then show ?thesis
    proof cases
      case own
      with Some snoc nm img show ?thesis
        by (auto simp: count_channels_snoc scan_cast_own)
    next
      case inh
      with Some snoc nm show ?thesis
        by (auto simp: count_channels_snoc scan_cast_inherited)
    next
      case new
      with Some snoc nm show ?thesis
        by (auto simp: count_channels_snoc scan_cast_new)
    qed
  qed
qed

lemma casts_naming_snoc:
  "casts_naming k (cs @ [c]) = casts_naming k cs + (if names k c then 1 else 0)"
  by (simp add: casts_naming_def)

lemma casts_naming_zero: "casts_naming k cs = 0 \<longleftrightarrow> \<not> (\<exists>c\<in>set cs. names k c)"
  by (auto simp: casts_naming_def filter_empty_conv)

lemma count_of_entry:
  "(k, a) \<in> set (count_channels cs) \<Longrightarrow> act_count a = casts_naming k cs"
proof (induction cs arbitrary: a rule: rev_induct)
  case Nil
  then show ?case by (simp add: count_channels_Nil)
next
  case (snoc c cs)
  show ?case
  proof (cases "cast_channel c")
    case None
    then have "\<not> names k c" by (simp add: names_def)
    with None snoc show ?thesis
      by (simp add: count_channels_snoc scan_cast_none casts_naming_snoc)
  next
    case (Some ch)
    then have nm: "names k c = (ch_id ch = k)" by (simp add: names_def)
    consider (own) "ch_id ch \<in> fst ` set (count_channels cs)"
      | (inh) "ch_id ch \<notin> fst ` set (count_channels cs)" "ch_id ch \<in> set object_prototype_keys"
      | (new) "ch_id ch \<notin> fst ` set (count_channels cs)" "ch_id ch \<notin> set object_prototype_keys"
      by blast
    then show ?thesis
    proof cases
      case own
      with Some snoc.prems have "(k, a) \<in> set (increment (count_channels cs) (ch_id ch))"
        by (simp add: count_channels_snoc scan_cast_own)
      from increment_entry [OF this] obtain b where
        b: "(k, b) \<in> set (count_channels cs)"
        "act_count a = (if k = ch_id ch then act_count b + 1 else act_count b)"
        by blast
      from snoc.IH [OF b(1)] b(2) nm show ?thesis
        by (auto simp: casts_naming_snoc)
    next
      case inh
      with Some snoc.prems have mem: "(k, a) \<in> set (count_channels cs)"
        by (simp add: count_channels_snoc scan_cast_inherited)
      then have "k \<noteq> ch_id ch" using inh(1) by force
      with snoc.IH [OF mem] nm show ?thesis
        by (auto simp: casts_naming_snoc)
    next
      case new
      with Some snoc.prems have
        "(k, a) \<in> set (count_channels cs) \<or>
         (k = ch_id ch \<and> a = \<lparr>act_count = 1, act_imageUrl = channelImageUrl_of ch, act_name = ch_name ch\<rparr>)"
        by (auto simp: count_channels_snoc scan_cast_new)
      then show ?thesis
      proof
        assume mem: "(k, a) \<in> set (count_channels cs)"
        then have "k \<noteq> ch_id ch" using new(1) by force
        with snoc.IH [OF mem] nm show ?thesis
          by (auto simp: casts_naming_snoc)
      next
        assume eq: "k = ch_id ch \<and> a = \<lparr>act_count = 1, act_imageUrl = channelImageUrl_of ch, act_name = ch_name ch\<rparr>"
        with new have "k \<notin> {k. \<exists>c\<in>set cs. names k c}"
          using keys_count_channels [of cs] by auto
        then have "casts_naming k cs = 0" by (simp add: casts_naming_zero)
        with eq nm show ?thesis by (simp add: casts_naming_snoc)
      qed
    qed
  qed
qed

lemma find_snoc:
  "find P (xs @ [x]) = (case find P xs of Some y \<Rightarrow> Some y | None \<Rightarrow> if P x then Some x else None)"
  by (induction xs) auto

lemma find_None_naming: "find (names k) cs = None \<longleftrightarrow> \<not> (\<exists>c\<in>set cs. names k c)"
  by (auto simp: find_None_iff)

lemma first_cast_of_entry:
  "(k, a) \<in> set (count_channels cs) \<Longrightarrow>
   \<exists>c ch. find (names k) cs = Some c \<and> cast_channel c = Some ch
     \<and> act_imageUrl a = channelImageUrl_of ch \<and> act_name a = ch_name ch"
proof (induction cs arbitrary: a rule: rev_induct)
  case Nil
  then show ?case by (simp add: count_channels_Nil)
next
  case (snoc c cs)
  show ?case
  proof (cases "cast_channel c")
    case None
    with snoc.prems have mem: "(k, a) \<in> set (count_channels cs)"
      by (simp add: count_channels_snoc scan_cast_none)
    from snoc.IH [OF mem] show ?thesis
      by (auto simp: find_snoc)
  next
    case (Some ch)
    then have nm: "names k c = (ch_id ch = k)" by (simp add: names_def)
    consider (own) "ch_id ch \<in> fst ` set (count_channels cs)"
      | (inh) "ch_id ch \<notin> fst ` set (count_channels cs)" "ch_id ch \<in> set object_prototype_keys"
      | (new) "ch_id ch \<notin> fst ` set (count_channels cs)" "ch_id ch \<notin> set object_prototype_keys"
      by blast
    then show ?thesis
    proof cases
      case own
      with Some snoc.prems have "(k, a) \<in> set (increment (count_channels cs) (ch_id ch))"
        by (simp add: count_channels_snoc scan_cast_own)
      from increment_entry [OF this] obtain b where
        b: "(k, b) \<in> set (count_channels cs)"
        "act_imageUrl a = act_imageUrl b" "act_name a = act_name b"
        by blast
      from snoc.IH [OF b(1)] b(2,3) show ?thesis
        by (auto simp: find_snoc)
    next
      case inh
      with Some snoc.prems have mem: "(k, a) \<in> set (count_channels cs)"
        by (simp add: count_channels_snoc scan_cast_inherited)
      from snoc.IH [OF mem] show ?thesis
        by (auto simp: find_snoc)
    next
      case new
      with Some snoc.prems have
        "(k, a) \<in> set (count_channels cs) \<or>
         (k = ch_id ch \<and> a = \<lparr>act_count = 1, act_imageUrl = channelImageUrl_of ch, act_name = ch_name ch\<rparr>)"
        by (auto simp: count_channels_snoc scan_cast_new)
      then show ?thesis
      proof
        assume mem: "(k, a) \<in> set (count_channels cs)"
        from snoc.IH [OF mem] show ?thesis
          by (auto simp: find_snoc)
      next
        assume eq: "k = ch_id ch \<and> a = \<lparr>act_count = 1, act_imageUrl = channelImageUrl_of ch, act_name = ch_name ch\<rparr>"
        with new have "k \<notin> {k. \<exists>c\<in>set cs. names k c}"
          using keys_count_channels [of cs] by auto
        then have "find (names k) cs = None" by (simp add: find_None_naming)
        with eq nm Some show ?thesis by (simp add: find_snoc)
      qed
    qed
  qed
qed

lemma distinct_keys: "distinct (map fst (count_channels cs))"
proof (induction cs rule: rev_induct)
  case Nil
  show ?case by (simp add: count_channels_Nil)
next
  case (snoc c cs)
  show ?case
  proof (cases "cast_channel c")
    case None
    with snoc show ?thesis by (simp add: count_channels_snoc scan_cast_none)
  next
    case (Some ch)
    consider (own) "ch_id ch \<in> fst ` set (count_channels cs)"
      | (inh) "ch_id ch \<notin> fst ` set (count_channels cs)" "ch_id ch \<in> set object_prototype_keys"
      | (new) "ch_id ch \<notin> fst ` set (count_channels cs)" "ch_id ch \<notin> set object_prototype_keys"
      by blast
    then show ?thesis
    proof cases
      case own
      with Some snoc show ?thesis
        by (simp add: count_channels_snoc scan_cast_own keys_increment)
    next
      case inh
      with Some snoc show ?thesis
        by (simp add: count_channels_snoc scan_cast_inherited)
    next
      case new
      with Some snoc show ?thesis
        by (simp add: count_channels_snoc scan_cast_new)
    qed
  qed
qed

lemma first_naming_snoc:
  "first_naming k (cs @ [c]) =
     (if \<exists>x\<in>set cs. names k x then first_naming k cs
      else if names k c then length cs else Suc (length cs))"
  by (auto simp: first_naming_def takeWhile_append)

lemma first_naming_less: "\<exists>x\<in>set cs. names k x \<Longrightarrow> first_naming k cs < length cs"
  unfolding first_naming_def by (induction cs) auto

lemma keys_in_order:
  "sorted_wrt (\<lambda>k k'. first_naming k cs < first_naming k' cs) (map fst (count_channels cs))"
proof (induction cs rule: rev_induct)
  case Nil
  show ?case by (simp add: count_channels_Nil)
next
  case (snoc c cs)
  have named: "\<And>k. k \<in> set (map fst (count_channels cs)) \<Longrightarrow> \<exists>x\<in>set cs. names k x"
    using keys_count_channels [of cs] by auto
  have old: "sorted_wrt (\<lambda>k k'. first_naming k (cs @ [c]) < first_naming k' (cs @ [c]))
               (map fst (count_channels cs))"
    by (rule sorted_wrt_mono_rel [OF _ snoc]) (use named in \<open>simp add: first_naming_snoc\<close>)
  show ?case
  proof (cases "cast_channel c")
    case None
    with old show ?thesis by (simp add: count_channels_snoc scan_cast_none)
  next
    case (Some ch)
    then have nm: "\<And>k. names k c = (ch_id ch = k)" by (simp add: names_def)
    consider (own) "ch_id ch \<in> fst ` set (count_channels cs)"
      | (inh) "ch_id ch \<notin> fst ` set (count_channels cs)" "ch_id ch \<in> set object_prototype_keys"
      | (new) "ch_id ch \<notin> fst ` set (count_channels cs)" "ch_id ch \<notin> set object_prototype_keys"
      by blast
    then show ?thesis
    proof cases
      case own
      with Some old show ?thesis
        by (simp add: count_channels_snoc scan_cast_own keys_increment)
    next
      case inh
      with Some old show ?thesis
        by (simp add: count_channels_snoc scan_cast_inherited)
    next
      case new
      then have "\<not> (\<exists>x\<in>set cs. names (ch_id ch) x)"
        using keys_count_channels [of cs] by auto
      then have last: "first_naming (ch_id ch) (cs @ [c]) = length cs"
        using nm by (simp add: first_naming_snoc)
      have "\<forall>k\<in>set (map fst (count_channels cs)). first_naming k (cs @ [c]) < length cs"
        using named by (auto simp: first_naming_snoc first_naming_less)
      with Some new old last show ?thesis
        by (simp add: count_channels_snoc scan_cast_new sorted_wrt_append)
    qed
  qed
qed

lemma named_has_entry:
  assumes "no_inherited_ids cs" and "\<exists>c\<in>set cs. names k c"
  shows "k \<in> fst ` set (count_channels cs)"
proof -
  from assms(2) obtain c where c: "c \<in> set cs" "names k c" by blast
  then obtain ch where ch: "cast_channel c = Some ch" "ch_id ch = k"
    by (auto simp: names_def split: option.splits)
  with assms(1) c(1) have "k \<notin> set object_prototype_keys"
    by (auto simp: no_inherited_ids_def list_all_iff)
  with assms(2) show ?thesis
    using keys_count_channels [of cs] by auto
qed

lemma keys_no_index:
  assumes "no_index_ids cs"
  shows "\<forall>k\<in>fst ` set (count_channels cs). \<not> is_array_index k"
proof
  fix k assume "k \<in> fst ` set (count_channels cs)"
  then obtain c where c: "c \<in> set cs" "names k c"
    using keys_count_channels [of cs] by auto
  then obtain ch where ch: "cast_channel c = Some ch" "ch_id ch = k"
    by (auto simp: names_def split: option.splits)
  with assms c(1) show "\<not> is_array_index k"
    by (auto simp: no_index_ids_def list_all_iff)
qed

subsection \<open>The reduction\<close>

text \<open>
  The fold keeps the first entry of maximal count: entries before it are strictly
  smaller, entries after it are not greater.
\<close>

lemma reduce_first_max:
  "xs \<noteq> [] \<Longrightarrow>
   \<exists>pre e post. xs = pre @ e # post \<and> foldl reduce_step None xs = Some e
     \<and> (\<forall>x\<in>set pre. act_count (snd x) < act_count (snd e))
     \<and> (\<forall>x\<in>set post. act_count (snd x) \<le> act_count (snd e))"
proof (induction xs rule: rev_induct)
  case Nil
  then show ?case by simp
next
  case (snoc x xs)
  show ?case
  proof (cases "xs = []")
    case True
    then have "[x] = [] @ x # [] \<and> foldl reduce_step None (xs @ [x]) = Some x"
      by (simp add: reduce_step_def)
    with True show ?thesis by fastforce
  next
    case False
    from snoc.IH [OF this] obtain pre e post where
      split: "xs = pre @ e # post" and res: "foldl reduce_step None xs = Some e"
      and lt: "\<forall>y\<in>set pre. act_count (snd y) < act_count (snd e)"
      and le: "\<forall>y\<in>set post. act_count (snd y) \<le> act_count (snd e)"
      by blast
    show ?thesis
    proof (cases "act_count (snd x) > act_count (snd e)")
      case True
      with res have r: "foldl reduce_step None (xs @ [x]) = Some x"
        by (simp add: reduce_step_def)
      have "\<forall>y\<in>set xs. act_count (snd y) < act_count (snd x)"
        using split lt le True by auto
      with r have "xs @ [x] = xs @ x # [] \<and> foldl reduce_step None (xs @ [x]) = Some x
        \<and> (\<forall>y\<in>set xs. act_count (snd y) < act_count (snd x))
        \<and> (\<forall>y\<in>set []. act_count (snd y) \<le> act_count (snd x))"
        by simp
      then show ?thesis by blast
    next
      case False
      with res have r: "foldl reduce_step None (xs @ [x]) = Some e"
        by (simp add: reduce_step_def)
      with split lt le False have
        "xs @ [x] = pre @ e # (post @ [x]) \<and> foldl reduce_step None (xs @ [x]) = Some e
        \<and> (\<forall>y\<in>set pre. act_count (snd y) < act_count (snd e))
        \<and> (\<forall>y\<in>set (post @ [x]). act_count (snd y) \<le> act_count (snd e))"
        by auto
      then show ?thesis by blast
    qed
  qed
qed

lemma set_object_entries: "set (object_entries obj) = set obj"
  by (auto simp: object_entries_def)

lemma selection_exists:
  assumes "\<exists>c\<in>set cs. cast_channel c \<noteq> None" and "no_inherited_ids cs"
  shows "\<exists>e. mostActive (count_channels cs) = Some e"
proof -
  from assms(1) obtain c0 ch0 where c0: "c0 \<in> set cs" "cast_channel c0 = Some ch0" by auto
  then have "names (ch_id ch0) c0" by (simp add: names_def)
  with c0(1) assms(2) have "ch_id ch0 \<in> fst ` set (count_channels cs)"
    by (intro named_has_entry) auto
  then have "count_channels cs \<noteq> []" by auto
  then have "object_entries (count_channels cs) \<noteq> []"
    using set_object_entries [of "count_channels cs"] by (metis set_empty)
  from reduce_first_max [OF this] show ?thesis
    by (auto simp: mostActive_def)
qed

lemma select_channel_None_iff:
  assumes "no_inherited_ids cs"
  shows "(select_channel addr cs = None) = list_all (\<lambda>c. cast_channel c = None) cs"
proof (cases "\<exists>c\<in>set cs. cast_channel c \<noteq> None")
  case True
  from selection_exists [OF True assms] obtain e where "mostActive (count_channels cs) = Some e"
    by blast
  moreover from True have "cs \<noteq> []" by auto
  ultimately have "select_channel addr cs \<noteq> None"
    by (cases e) (simp add: select_channel_def)
  with True show ?thesis by (auto simp: list_all_iff)
next
  case False
  then have all: "list_all (\<lambda>c. cast_channel c = None) cs" by (auto simp: list_all_iff)
  from False have "\<And>k. \<not> (\<exists>c\<in>set cs. names k c)"
    by (auto simp: names_def split: option.splits)
  then have "fst ` set (count_channels cs) = {}"
    using keys_count_channels [of cs] by auto
  then have "count_channels cs = []" by simp
  then have "select_channel addr cs = None"
    by (simp add: select_channel_def mostActive_def object_entries_def)
  with all show ?thesis by simp
qed

text \<open>
  Two array indices with the same numeric value are the same string, so the numeric order
  of the index keys is strict.
\<close>

lemma digits_value_snoc:
  "digits_value (s @ [c]) = 10 * digits_value s + ((of_char c :: nat) - 48)"
  by (simp add: digits_value_def)

lemma digits_value_Nil: "digits_value [] = 0"
  by (simp add: digits_value_def)

lemma digit_eq:
  assumes "is_digit c" "is_digit c'" "(of_char c :: nat) - 48 = (of_char c' :: nat) - 48"
  shows "c = c'"
proof -
  from assms have "(of_char c :: nat) = of_char c'"
    unfolding is_digit_def by arith
  then show ?thesis by simp
qed

lemma digit_less_10: "is_digit c \<Longrightarrow> (of_char c :: nat) - 48 < 10"
  unfolding is_digit_def by arith

text \<open>A digit string of value 0 consists of zeros.\<close>

lemma zero_value_zeros:
  "list_all is_digit s \<Longrightarrow> digits_value s = 0 \<Longrightarrow> \<forall>c\<in>set s. c = CHR ''0''"
proof (induction s rule: rev_induct)
  case Nil
  then show ?case by simp
next
  case (snoc c s)
  then have v: "digits_value s = 0" and d: "(of_char c :: nat) - 48 = 0"
    by (simp_all add: digits_value_snoc)
  from snoc.prems have dc: "is_digit c" by simp
  have "is_digit CHR ''0''" by (simp add: is_digit_def)
  from digit_eq [OF dc this] d have "c = CHR ''0''" by simp
  with snoc v show ?case by simp
qed

lemma digits_value_inj_aux:
  "list_all is_digit s \<Longrightarrow> list_all is_digit t \<Longrightarrow>
   (s \<noteq> [] \<longrightarrow> hd s \<noteq> CHR ''0'') \<Longrightarrow> (t \<noteq> [] \<longrightarrow> hd t \<noteq> CHR ''0'') \<Longrightarrow>
   digits_value s = digits_value t \<Longrightarrow> s = t"
proof (induction s arbitrary: t rule: rev_induct)
  case Nil
  then have "digits_value t = 0" by (simp add: digits_value_Nil)
  with Nil.prems(2) have "\<forall>c\<in>set t. c = CHR ''0''" by (rule zero_value_zeros)
  with Nil.prems(4) show ?case by (cases t) auto
next
  case (snoc c s)
  show ?case
  proof (cases t rule: rev_cases)
    case Nil
    with snoc.prems have "digits_value (s @ [c]) = 0" by (simp add: digits_value_Nil)
    with snoc.prems(1) have "\<forall>x\<in>set (s @ [c]). x = CHR ''0''" by (rule zero_value_zeros)
    with snoc.prems(3) show ?thesis by (cases s) auto
  next
    case (snoc t' c')
    from snoc.prems(1) have dc: "is_digit c" and ds: "list_all is_digit s" by simp_all
    from snoc.prems(2) snoc have dc': "is_digit c'" and dt: "list_all is_digit t'" by simp_all
    from snoc.prems(5) snoc have
      eq: "10 * digits_value s + ((of_char c :: nat) - 48)
           = 10 * digits_value t' + ((of_char c' :: nat) - 48)"
      by (simp add: digits_value_snoc)
    from eq have "(10 * digits_value s + ((of_char c :: nat) - 48)) div 10
                  = (10 * digits_value t' + ((of_char c' :: nat) - 48)) div 10"
      by simp
    with digit_less_10 [OF dc] digit_less_10 [OF dc']
    have v: "digits_value s = digits_value t'" by simp
    with eq have d: "(of_char c :: nat) - 48 = (of_char c' :: nat) - 48" by simp
    from digit_eq [OF dc dc' d] have cc: "c = c'" .
    have hs: "s \<noteq> [] \<longrightarrow> hd s \<noteq> CHR ''0''" using snoc.prems(3) by (cases s) auto
    have ht: "t' \<noteq> [] \<longrightarrow> hd t' \<noteq> CHR ''0''" using snoc.prems(4) snoc by (cases t') auto
    from snoc.IH [OF ds dt hs ht v] cc snoc show ?thesis by simp
  qed
qed

lemma zero_index: "is_array_index s \<Longrightarrow> digits_value s = 0 \<Longrightarrow> s = ''0''"
proof -
  assume a: "is_array_index s" and v: "digits_value s = 0"
  from a have d: "list_all is_digit s" and ne: "s \<noteq> []"
    and c: "s = ''0'' \<or> hd s \<noteq> CHR ''0''"
    by (simp_all add: is_array_index_def)
  from zero_value_zeros [OF d v] ne have "hd s = CHR ''0''" by (cases s) auto
  with c show ?thesis by simp
qed

lemma digits_value_inj:
  assumes "is_array_index s" and "is_array_index t" and "digits_value s = digits_value t"
  shows "s = t"
proof (cases "digits_value s = 0")
  case True
  with assms(3) have "digits_value t = 0" by simp
  from zero_index [OF assms(1) True] zero_index [OF assms(2) this] show ?thesis by simp
next
  case False
  have z: "digits_value ''0'' = 0" by (simp add: digits_value_def)
  from False z have s0: "s \<noteq> ''0''" by auto
  from False assms(3) z have t0: "t \<noteq> ''0''" by auto
  from assms(1) s0 have 1: "list_all is_digit s" "s \<noteq> [] \<longrightarrow> hd s \<noteq> CHR ''0''"
    by (simp_all add: is_array_index_def)
  from assms(2) t0 have 2: "list_all is_digit t" "t \<noteq> [] \<longrightarrow> hd t \<noteq> CHR ''0''"
    by (simp_all add: is_array_index_def)
  from digits_value_inj_aux [OF 1(1) 2(1) 1(2) 2(2) assms(3)] show ?thesis .
qed

text \<open>
  The entries are enumerated in the order described by \<open>enumerated_before\<close>.
\<close>

lemma sorted_wrt_distinct_keys:
  "sorted_wrt P xs \<Longrightarrow> distinct (map g xs) \<Longrightarrow> sorted_wrt (\<lambda>x y. P x y \<and> g x \<noteq> g y) xs"
  by (induction xs) auto

lemma entries_in_order:
  "sorted_wrt (\<lambda>x y. enumerated_before (fst x) (fst y) cs) (object_entries (count_channels cs))"
proof -
  let ?A = "count_channels cs"
  let ?f = "\<lambda>(k, v :: activity). digits_value k"
  let ?S = "sort_key ?f (filter (\<lambda>(k, v). is_array_index k) ?A)"
  let ?N = "filter (\<lambda>(k, v). \<not> is_array_index k) ?A"
  let ?R = "\<lambda>x y. enumerated_before (fst x) (fst y) cs"
  have dA: "distinct (map fst ?A)" by (rule distinct_keys)
  then have "distinct ?A" and inj: "inj_on fst (set ?A)" by (simp_all add: distinct_map)
  then have "distinct ?S" by simp
  moreover have "inj_on fst (set ?S)" using inj by (auto simp: inj_on_def)
  ultimately have dS: "distinct (map fst ?S)" by (simp add: distinct_map)
  have "sorted (map ?f ?S)" by simp
  then have "sorted_wrt (\<lambda>x y. ?f x \<le> ?f y) ?S" by (simp add: sorted_map)
  from sorted_wrt_distinct_keys [OF this dS]
  have "sorted_wrt (\<lambda>x y. ?f x \<le> ?f y \<and> fst x \<noteq> fst y) ?S" .
  then have S: "sorted_wrt ?R ?S"
  proof (rule sorted_wrt_mono_rel [rotated])
    fix x y
    assume x: "x \<in> set ?S" and y: "y \<in> set ?S" and le: "?f x \<le> ?f y \<and> fst x \<noteq> fst y"
    from x y have ix: "is_array_index (fst x)" and iy: "is_array_index (fst y)" by auto
    from le have "digits_value (fst x) \<le> digits_value (fst y)" and ne: "fst x \<noteq> fst y"
      by (auto split: prod.splits)
    moreover have "digits_value (fst x) \<noteq> digits_value (fst y)"
      using digits_value_inj [OF ix iy] ne by blast
    ultimately show "?R x y" using ix by (simp add: enumerated_before_def)
  qed
  have "sorted_wrt (\<lambda>x y. first_naming (fst x) cs < first_naming (fst y) cs) ?A"
    using keys_in_order [of cs] by (simp add: sorted_wrt_map)
  then have "sorted_wrt (\<lambda>x y. first_naming (fst x) cs < first_naming (fst y) cs) ?N"
    by (rule sorted_wrt_filter)
  then have N: "sorted_wrt ?R ?N"
  proof (rule sorted_wrt_mono_rel [rotated])
    fix x y
    assume "x \<in> set ?N" and "y \<in> set ?N"
      and "first_naming (fst x) cs < first_naming (fst y) cs"
    then show "?R x y" by (auto simp: enumerated_before_def)
  qed
  have SN: "\<forall>x\<in>set ?S. \<forall>y\<in>set ?N. ?R x y"
    by (auto simp: enumerated_before_def)
  from S N SN show ?thesis
    by (simp add: object_entries_def sorted_wrt_append)
qed

text \<open>
  The selection made from a cast list: a channel of maximal count, the first such in the
  enumeration order, with the values stored from its first cast.
\<close>

lemma selection_properties:
  assumes some: "\<exists>c\<in>set cs. cast_channel c \<noteq> None"
    and plain: "no_inherited_ids cs"
  shows "\<exists>k a. mostActive (count_channels cs) = Some (k, a)
     \<and> (\<exists>c\<in>set cs. names k c)
     \<and> act_count a = casts_naming k cs
     \<and> (\<forall>k'. casts_naming k' cs \<le> casts_naming k cs)
     \<and> (\<forall>k'. k' \<noteq> k \<and> casts_naming k' cs = casts_naming k cs
               \<longrightarrow> enumerated_before k k' cs)
     \<and> (no_index_ids cs \<longrightarrow>
          (\<forall>k'. k' \<noteq> k \<and> casts_naming k' cs = casts_naming k cs
                 \<longrightarrow> first_naming k cs < first_naming k' cs))
     \<and> (\<exists>c ch. find (names k) cs = Some c \<and> cast_channel c = Some ch
            \<and> act_imageUrl a = channelImageUrl_of ch \<and> act_name a = ch_name ch)
     \<and> select_channel addr cs =
         Some \<lparr>channelImageUrl = act_imageUrl a, address = addr, channelName = act_name a\<rparr>"
proof -
  let ?A = "count_channels cs"
  let ?E = "object_entries ?A"
  from some obtain c0 ch0 where c0: "c0 \<in> set cs" "cast_channel c0 = Some ch0" by auto
  then have "names (ch_id ch0) c0" by (simp add: names_def)
  with c0(1) plain have "ch_id ch0 \<in> fst ` set ?A"
    by (intro named_has_entry) auto
  then have "?A \<noteq> []" by auto
  then have "?E \<noteq> []" using set_object_entries [of ?A] by (metis set_empty)
  from reduce_first_max [OF this] obtain pre e post where
    split: "?E = pre @ e # post" and res: "foldl reduce_step None ?E = Some e"
    and lt: "\<forall>x\<in>set pre. act_count (snd x) < act_count (snd e)"
    and le: "\<forall>x\<in>set post. act_count (snd x) \<le> act_count (snd e)"
    by blast
  obtain k a where e: "e = (k, a)" by (cases e)
  have mem: "(k, a) \<in> set ?A"
    using split e set_object_entries [of ?A] by (metis in_set_conv_decomp)
  have all_le: "\<forall>x\<in>set ?A. act_count (snd x) \<le> act_count a"
  proof
    fix x assume "x \<in> set ?A"
    then have "x \<in> set (pre @ e # post)" using split set_object_entries [of ?A] by simp
    with lt le e show "act_count (snd x) \<le> act_count a" by auto
  qed
  have sel: "mostActive ?A = Some (k, a)"
    using res e by (simp add: mostActive_def)
  have named: "\<exists>c\<in>set cs. names k c"
    using mem keys_count_channels [of cs] by force
  have cnt: "act_count a = casts_naming k cs"
    by (rule count_of_entry [OF mem])
  have maxi: "\<forall>k'. casts_naming k' cs \<le> casts_naming k cs"
  proof
    fix k'
    show "casts_naming k' cs \<le> casts_naming k cs"
    proof (cases "\<exists>c\<in>set cs. names k' c")
      case True
      from named_has_entry [OF plain True] obtain a' where m': "(k', a') \<in> set ?A" by auto
      from all_le m' have "act_count a' \<le> act_count a" by auto
      with count_of_entry [OF m'] cnt show ?thesis by simp
    next
      case False
      then have "casts_naming k' cs = 0" by (simp add: casts_naming_zero)
      then show ?thesis by simp
    qed
  qed
  have tie: "\<forall>k'. k' \<noteq> k \<and> casts_naming k' cs = casts_naming k cs
               \<longrightarrow> enumerated_before k k' cs"
  proof (intro impI allI)
    fix k'
    assume k': "k' \<noteq> k \<and> casts_naming k' cs = casts_naming k cs"
    from named have "casts_naming k cs \<noteq> 0" by (simp add: casts_naming_zero)
    with k' have "\<exists>c\<in>set cs. names k' c" by (metis casts_naming_zero)
    from named_has_entry [OF plain this] obtain a' where m': "(k', a') \<in> set ?A" by auto
    have "act_count a' = act_count a"
      using count_of_entry [OF m'] cnt k' by simp
    with lt e have "(k', a') \<notin> set pre" by force
    moreover have "(k', a') \<in> set (pre @ e # post)"
      using m' split set_object_entries [of ?A] by simp
    ultimately have inpost: "(k', a') \<in> set post" using k' e by auto
    have "sorted_wrt (\<lambda>x y. enumerated_before (fst x) (fst y) cs) (pre @ (k, a) # post)"
      using entries_in_order [of cs] split e by simp
    with inpost show "enumerated_before k k' cs"
      by (auto simp: sorted_wrt_append)
  qed
  have tie_seen: "no_index_ids cs \<longrightarrow>
      (\<forall>k'. k' \<noteq> k \<and> casts_naming k' cs = casts_naming k cs
             \<longrightarrow> first_naming k cs < first_naming k' cs)"
  proof (intro impI allI)
    fix k'
    assume noidx: "no_index_ids cs"
      and k': "k' \<noteq> k \<and> casts_naming k' cs = casts_naming k cs"
    from keys_no_index [OF noidx] mem have "\<not> is_array_index k" by force
    with tie k' show "first_naming k cs < first_naming k' cs"
      by (simp add: enumerated_before_def)
  qed
  have stored: "\<exists>c ch. find (names k) cs = Some c \<and> cast_channel c = Some ch
            \<and> act_imageUrl a = channelImageUrl_of ch \<and> act_name a = ch_name ch"
    by (rule first_cast_of_entry [OF mem])
  have "cs \<noteq> []" using some by auto
  with sel have out: "select_channel addr cs =
         Some \<lparr>channelImageUrl = act_imageUrl a, address = addr, channelName = act_name a\<rparr>"
    by (simp add: select_channel_def)
  from sel named cnt maxi tie tie_seen stored out show ?thesis by blast
qed

lemma resolver_returns_selection:
  assumes "s \<noteq> []"
    and "user_lookup env s = Resp (Some data)"
    and "data (toLowerCase s) = Some (user # rest)"
    and "casts_lookup env (fid user) = Resp (Some r)"
  shows "fetchMostActiveChannelImage env (Str s) = Inr (select_channel s (casts r))"
  using assms by (simp add: fetchMostActiveChannelImage_def try_block_def)

text \<open>
  Claim C1, as amended. When both lookups succeed and the cast list has at least one cast
  with a channel, and no channel id is a property name inherited from
  \<^verbatim>\<open>Object.prototype\<close>, the resolver selects a channel whose number of casts is maximal,
  and returns the image URL and name stored for it, which are those of the first cast
  naming it. Among channels that tie at the maximum it selects the one that
  \<^verbatim>\<open>Object.entries\<close> enumerates first: array-index ids in ascending numeric order, then
  the other ids in order of first appearance. So when no channel id is an array index, the
  selected channel is the tied channel whose first cast is earliest.
\<close>

theorem most_active_selection:
  assumes "s \<noteq> []"
    and "user_lookup env s = Resp (Some data)"
    and "data (toLowerCase s) = Some (user # rest)"
    and "casts_lookup env (fid user) = Resp (Some r)"
    and some: "\<exists>c\<in>set (casts r). cast_channel c \<noteq> None"
    and plain: "no_inherited_ids (casts r)"
  shows "\<exists>k a. mostActive (count_channels (casts r)) = Some (k, a)
     \<and> (\<exists>c\<in>set (casts r). names k c)
     \<and> act_count a = casts_naming k (casts r)
     \<and> (\<forall>k'. casts_naming k' (casts r) \<le> casts_naming k (casts r))
     \<and> (\<forall>k'. k' \<noteq> k \<and> casts_naming k' (casts r) = casts_naming k (casts r)
               \<longrightarrow> enumerated_before k k' (casts r))
     \<and> (no_index_ids (casts r) \<longrightarrow>
          (\<forall>k'. k' \<noteq> k \<and> casts_naming k' (casts r) = casts_naming k (casts r)
                 \<longrightarrow> first_naming k (casts r) < first_naming k' (casts r)))
     \<and> (\<exists>c ch. find (names k) (casts r) = Some c \<and> cast_channel c = Some ch
            \<and> act_imageUrl a = channelImageUrl_of ch \<and> act_name a = ch_name ch)
     \<and> fetchMostActiveChannelImage env (Str s) =
         Inr (Some \<lparr>channelImageUrl = act_imageUrl a, address = s, channelName = act_name a\<rparr>)"
proof -
  have "fetchMostActiveChannelImage env (Str s) = Inr (select_channel s (casts r))"
    by (rule resolver_returns_selection) fact+
  with selection_properties [OF some plain, of s] show ?thesis
    by auto
qed

text \<open>
  The theorem at a list where channels \<open>a\<close> and \<open>b\<close> both have two casts and \<open>a\<close>
  comes first.
\<close>

theorem most_active_selection_witness:
  "cast_channel (hd ab_casts) \<noteq> None \<and> no_inherited_ids ab_casts \<and> no_index_ids ab_casts
   \<and> mostActive (count_channels ab_casts) =
       Some (''a'', \<lparr>act_count = 2, act_imageUrl = ''img-a'', act_name = ''A''\<rparr>)
   \<and> casts_naming ''b'' ab_casts = casts_naming ''a'' ab_casts
   \<and> first_naming ''a'' ab_casts < first_naming ''b'' ab_casts
   \<and> fetchMostActiveChannelImage (casts_env ab_casts) (Str ''0xABC'') =
       Inr (Some \<lparr>channelImageUrl = ''img-a'', address = ''0xABC'', channelName = ''A''\<rparr>)"
proof -
  let ?r = "\<lparr>casts = ab_casts\<rparr>"
  have h0: "''0xABC'' \<noteq> []" by simp
  have hu: "user_lookup (casts_env ab_casts) ''0xABC''
              = Resp (Some [toLowerCase ''0xABC'' \<mapsto> [\<lparr>fid = 7\<rparr>]])"
    by (simp add: casts_env_def)
  have hd: "[toLowerCase ''0xABC'' \<mapsto> [\<lparr>fid = 7\<rparr>]] (toLowerCase ''0xABC'') = Some (\<lparr>fid = 7\<rparr> # [])"
    by simp
  have hc: "casts_lookup (casts_env ab_casts) (fid \<lparr>fid = 7\<rparr>) = Resp (Some ?r)"
    by (simp add: casts_env_def)
  have h1: "\<exists>c\<in>set (casts ?r). cast_channel c \<noteq> None"
    by (simp add: ab_casts_def example_cast_def)
  have h2: "no_inherited_ids (casts ?r)"
    by (simp add: ab_casts_def example_cast_def no_inherited_ids_def object_prototype_keys_def)
  have h3: "no_index_ids ab_casts"
    by (simp add: ab_casts_def example_cast_def no_index_ids_def is_array_index_def is_digit_def)
  have sel: "mostActive (count_channels ab_casts) =
       Some (''a'', \<lparr>act_count = 2, act_imageUrl = ''img-a'', act_name = ''A''\<rparr>)"
    by (simp add: ab_casts_def example_cast_def scan_defs select_defs)
  have tie: "casts_naming ''b'' ab_casts = casts_naming ''a'' ab_casts"
    by (simp add: ab_casts_def example_cast_def names_def casts_naming_def)
  from most_active_selection [OF h0 hu hd hc h1 h2] obtain k a where
    ka: "mostActive (count_channels ab_casts) = Some (k, a)"
    and tb: "no_index_ids ab_casts \<longrightarrow>
          (\<forall>k'. k' \<noteq> k \<and> casts_naming k' ab_casts = casts_naming k ab_casts
                 \<longrightarrow> first_naming k ab_casts < first_naming k' ab_casts)"
    and out: "fetchMostActiveChannelImage (casts_env ab_casts) (Str ''0xABC'') =
         Inr (Some \<lparr>channelImageUrl = act_imageUrl a, address = ''0xABC'', channelName = act_name a\<rparr>)"
    by auto
  from ka [unfolded sel] have k: "k = ''a''"
    and a: "a = \<lparr>act_count = 2, act_imageUrl = ''img-a'', act_name = ''A''\<rparr>"
    by auto
  from tb h3 k tie have first: "first_naming ''a'' ab_casts < first_naming ''b'' ab_casts"
    by simp
  have hd: "cast_channel (hd ab_casts) \<noteq> None"
    by (simp add: ab_casts_def example_cast_def)
  from hd h2 h3 sel tie first out a show ?thesis by simp
qed

text \<open>
  Claim C1 as stated fails when a channel id is an array index: \<^verbatim>\<open>Object.entries\<close>
  lists the key \<^verbatim>\<open>1\<close> before the key \<^verbatim>\<open>b\<close>, although the cast of \<^verbatim>\<open>b\<close> came first
  and both channels have one cast.
\<close>

theorem tie_break_counterexample:
  "tie_casts \<noteq> [] \<and> cast_channel (hd tie_casts) \<noteq> None
   \<and> casts_naming ''b'' tie_casts = 1 \<and> casts_naming ''1'' tie_casts = 1
   \<and> first_naming ''b'' tie_casts = 0 \<and> first_naming ''1'' tie_casts = 1
   \<and> mostActive (count_channels tie_casts) =
       Some (''1'', \<lparr>act_count = 1, act_imageUrl = ''img-1'', act_name = ''One''\<rparr>)
   \<and> fetchMostActiveChannelImage (casts_env tie_casts) (Str ''0xabc'') =
       Inr (Some \<lparr>channelImageUrl = ''img-1'', address = ''0xabc'', channelName = ''One''\<rparr>)"
  by (simp add: tie_casts_def example_cast_def names_def casts_naming_def first_naming_def
        fetchMostActiveChannelImage_def try_block_def casts_env_def toLowerCase_def
        scan_defs select_defs)

text \<open>
  Claim C2 at a cast whose channel id is \<^verbatim>\<open>constructor\<close>: the read
  \<^verbatim>\<open>channelActivity[id]\<close> finds the inherited member, no entry is created, and the map
  stays empty although a cast names the channel.
\<close>

theorem inherited_channel_id_not_counted:
  "cast_channel (example_cast ''constructor'' ''Constructor'' ''img'') \<noteq> None
   \<and> count_channels [example_cast ''constructor'' ''Constructor'' ''img''] = []"
  by (simp add: example_cast_def scan_defs)

subsection \<open>The resolver\<close>

lemma catch_block_not_invalid: "catch_block s e \<noteq> Inl InvalidInput"
  by (simp add: catch_block_def split: option.splits)

lemma catch_block_null_iff:
  "(catch_block s e = Inr r) = (r = None \<and> isAxiosError e \<and> response_status e = Some 404)"
  by (auto simp: catch_block_def split: option.splits)

lemma try_block_user_thrown: "user_lookup env s = Thrown e \<Longrightarrow> try_block env s = Inl e"
  by (simp add: try_block_def)

lemma try_block_casts_thrown:
  "user_lookup env s = Resp (Some data) \<Longrightarrow> data (toLowerCase s) = Some (user # rest) \<Longrightarrow>
   casts_lookup env (fid user) = Thrown e \<Longrightarrow> try_block env s = Inl e"
  by (simp add: try_block_def)

lemma identity_lookup_404:
  "s \<noteq> [] \<Longrightarrow> user_lookup env s = Thrown e \<Longrightarrow> isAxiosError e \<Longrightarrow>
   response_status e = Some 404 \<Longrightarrow> fetchMostActiveChannelImage env (Str s) = Inr None"
  by (simp add: fetchMostActiveChannelImage_def try_block_def catch_block_def)

text \<open>
  Where neither the lower-cased address nor a channel id is a name inherited from
  \<^verbatim>\<open>Object.prototype\<close>, the resolver returns \<^verbatim>\<open>null\<close> in exactly these cases: the
  response has no entry for the address or an empty list, the feed has no casts, no cast has
  a channel, or a remote call is rejected with status 404.
\<close>

lemma not_found_cases:
  assumes "s \<noteq> []"
    and "toLowerCase s \<notin> set object_prototype_keys"
    and "\<And>n r. casts_lookup env n = Resp (Some r) \<Longrightarrow> no_inherited_ids (casts r)"
  shows "(fetchMostActiveChannelImage env (Str s) = Inr None) =
     (case user_lookup env s of
        Thrown e \<Rightarrow> isAxiosError e \<and> response_status e = Some 404
      | Resp None \<Rightarrow> True
      | Resp (Some data) \<Rightarrow>
          (case data (toLowerCase s) of
             None \<Rightarrow> True
           | Some [] \<Rightarrow> True
           | Some (user # rest) \<Rightarrow>
               (case casts_lookup env (fid user) of
                  Thrown e \<Rightarrow> isAxiosError e \<and> response_status e = Some 404
                | Resp None \<Rightarrow> True
                | Resp (Some r) \<Rightarrow> list_all (\<lambda>c. cast_channel c = None) (casts r))))"
  using assms
  by (auto simp: fetchMostActiveChannelImage_def try_block_def catch_block_null_iff
        select_channel_None_iff Let_def
      split: remote.splits option.splits list.splits sum.splits)

text \<open>
  Claim C3 at an address with an identity whose only cast is in the channel
  \<^verbatim>\<open>constructor\<close>: the resolver returns \<^verbatim>\<open>null\<close>, in none of the four listed cases.
\<close>

theorem inherited_channel_id_not_found:
  "cast_channel (example_cast ''constructor'' ''Constructor'' ''img'') \<noteq> None
   \<and> fetchMostActiveChannelImage
        (casts_env [example_cast ''constructor'' ''Constructor'' ''img'']) (Str ''0xabc'')
      = Inr None"
  by (simp add: fetchMostActiveChannelImage_def try_block_def casts_env_def toLowerCase_def example_cast_def scan_defs select_defs)

text \<open>
  Claim C4, as amended. When either remote call is rejected with \<open>e\<close>, the resolver
  classifies \<open>e\<close> by the status of an axios error only: 401 is \<open>AuthFailure\<close>, 403 is
  \<open>Forbidden\<close>, 404 is the value \<^verbatim>\<open>null\<close>, 500 and above is \<open>UpstreamServerError\<close>.
  Every other failure, status 429 included, is wrapped by the catch-all error, whose message
  holds the address and the rendering of the cause. The resolver has no error of its own
  for rate limiting.
\<close>

theorem resolver_error_taxonomy:
  assumes "s \<noteq> []"
    and "user_lookup env s = Thrown e
         \<or> (user_lookup env s = Resp (Some data) \<and> data (toLowerCase s) = Some (user # rest)
            \<and> casts_lookup env (fid user) = Thrown e)"
  shows "(isAxiosError e \<and> response_status e = Some 401 \<longrightarrow>
            fetchMostActiveChannelImage env (Str s) = Inl AuthFailure)
       \<and> (isAxiosError e \<and> response_status e = Some 403 \<longrightarrow>
            fetchMostActiveChannelImage env (Str s) = Inl Forbidden)
       \<and> (isAxiosError e \<and> response_status e = Some 404 \<longrightarrow>
            fetchMostActiveChannelImage env (Str s) = Inr None)
       \<and> (\<forall>st. isAxiosError e \<and> response_status e = Some st \<and> st \<ge> 500 \<longrightarrow>
            fetchMostActiveChannelImage env (Str s) = Inl UpstreamServerError)
       \<and> (isAxiosError e \<and> response_status e = Some 429 \<longrightarrow>
            fetchMostActiveChannelImage env (Str s) = Inl (UpstreamUnavailable s (text_of e)))
       \<and> (unclassified e \<longrightarrow>
            fetchMostActiveChannelImage env (Str s) = Inl (UpstreamUnavailable s (text_of e))
            \<and> message (UpstreamUnavailable s (text_of e)) =
                ''Failed to fetch most active channel image for address '' @ s @ '': '' @ text_of e)"
proof -
  from assms(2) have "try_block env s = Inl e"
    by (auto simp: try_block_user_thrown try_block_casts_thrown)
  with assms(1) have "fetchMostActiveChannelImage env (Str s) = catch_block s e"
    by (simp add: fetchMostActiveChannelImage_def)
  then show ?thesis
    by (auto simp: catch_block_def unclassified_def split: option.splits if_splits)
qed

theorem resolver_error_taxonomy_witness:
  "fetchMostActiveChannelImage
     (failing_env (status_error 401 ''AxiosError: Request failed with status code 401''))
     (Str ''0xabc'') = Inl AuthFailure
   \<and> fetchMostActiveChannelImage
     (failing_env (status_error 503 ''AxiosError: Request failed with status code 503''))
     (Str ''0xabc'') = Inl UpstreamServerError
   \<and> unclassified timeout_error
   \<and> fetchMostActiveChannelImage (failing_env timeout_error) (Str ''0xabc'')
       = Inl (UpstreamUnavailable ''0xabc'' ''AxiosError: timeout of 10000ms exceeded'')"
proof -
  have ne: "''0xabc'' \<noteq> []" by simp
  have th: "\<And>e. user_lookup (failing_env e) ''0xabc'' = Thrown e
         \<or> (user_lookup (failing_env e) ''0xabc'' = Resp (Some Map.empty)
            \<and> Map.empty (toLowerCase ''0xabc'') = Some (\<lparr>fid = 0\<rparr> # [])
            \<and> casts_lookup (failing_env e) (fid \<lparr>fid = 0\<rparr>) = Thrown e)"
    by (simp add: failing_env_def)
  have u: "unclassified timeout_error"
    by (simp add: unclassified_def timeout_error_def)
  from resolver_error_taxonomy [OF ne th, of "status_error 401 ''AxiosError: Request failed with status code 401''"]
  have a: "fetchMostActiveChannelImage
     (failing_env (status_error 401 ''AxiosError: Request failed with status code 401''))
     (Str ''0xabc'') = Inl AuthFailure"
    by (simp add: status_error_def)
  from resolver_error_taxonomy [OF ne th, of "status_error 503 ''AxiosError: Request failed with status code 503''"]
  have b: "fetchMostActiveChannelImage
     (failing_env (status_error 503 ''AxiosError: Request failed with status code 503''))
     (Str ''0xabc'') = Inl UpstreamServerError"
    by (simp add: status_error_def)
  from resolver_error_taxonomy [OF ne th, of timeout_error] u
  have c: "fetchMostActiveChannelImage (failing_env timeout_error) (Str ''0xabc'')
       = Inl (UpstreamUnavailable ''0xabc'' ''AxiosError: timeout of 10000ms exceeded'')"
    by (simp add: timeout_error_def)
  from a b u c show ?thesis by simp
qed

text \<open>
  Claim C4 as stated fails: a rejection with status 429, and one whose message contains
  \<^verbatim>\<open>Rate limit exceeded\<close>, give the same catch-all error as a timeout.
\<close>

theorem rate_limit_counterexample:
  "fetchMostActiveChannelImage (failing_env rate_limit_error) (Str ''0xabc'')
     = Inl (UpstreamUnavailable ''0xabc'' ''AxiosError: Request failed with status code 429'')
   \<and> fetchMostActiveChannelImage (failing_env timeout_error) (Str ''0xabc'')
     = Inl (UpstreamUnavailable ''0xabc'' ''AxiosError: timeout of 10000ms exceeded'')
   \<and> fetchMostActiveChannelImage
        (failing_env \<lparr>isAxiosError = False, response_status = None,
                      text_of = ''Error: Rate limit exceeded''\<rparr>) (Str ''0xabc'')
     = Inl (UpstreamUnavailable ''0xabc'' ''Error: Rate limit exceeded'')"
  by (simp add: fetchMostActiveChannelImage_def try_block_def failing_env_def catch_block_def
        rate_limit_error_def status_error_def timeout_error_def)

text \<open>
  Claim C9. The resolver fails with \<open>InvalidInput\<close> exactly when the address is not a
  non-empty string. A non-empty string of any format goes on to the identity lookup, whose
  outcome decides the result. A repeated query parameter (an array) passes the presence
  test of the handler and is rejected by the resolver.
\<close>

theorem invalid_input_iff:
  "(fetchMostActiveChannelImage env a = Inl InvalidInput) = (\<not> is_nonempty_string a)
   \<and> (s \<noteq> [] \<longrightarrow>
        fetchMostActiveChannelImage env (Str s) \<noteq> Inl InvalidInput
        \<and> (\<forall>e. user_lookup env s = Thrown e \<longrightarrow>
               fetchMostActiveChannelImage env (Str s) = catch_block s e)
        \<and> (user_lookup env s = Resp None \<longrightarrow>
               fetchMostActiveChannelImage env (Str s) = Inr None))
   \<and> truthy (StrArray xs)
   \<and> fetchMostActiveChannelImage env (StrArray xs) = Inl InvalidInput"
proof -
  have 1: "(fetchMostActiveChannelImage env a = Inl InvalidInput) = (\<not> is_nonempty_string a)"
    by (cases a)
      (auto simp: fetchMostActiveChannelImage_def is_nonempty_string_def catch_block_not_invalid
            split: sum.splits)
  have 2: "s \<noteq> [] \<Longrightarrow> fetchMostActiveChannelImage env (Str s) \<noteq> Inl InvalidInput"
    by (auto simp: fetchMostActiveChannelImage_def catch_block_not_invalid split: sum.splits)
  have 3: "\<And>e. s \<noteq> [] \<Longrightarrow> user_lookup env s = Thrown e \<Longrightarrow>
             fetchMostActiveChannelImage env (Str s) = catch_block s e"
    by (simp add: fetchMostActiveChannelImage_def try_block_user_thrown)
  have 4: "s \<noteq> [] \<Longrightarrow> user_lookup env s = Resp None \<Longrightarrow>
             fetchMostActiveChannelImage env (Str s) = Inr None"
    by (simp add: fetchMostActiveChannelImage_def try_block_def)
  have 5: "truthy (StrArray xs)" by (simp add: truthy_def)
  have 6: "fetchMostActiveChannelImage env (StrArray xs) = Inl InvalidInput"
    by (simp add: fetchMostActiveChannelImage_def)
  from 1 2 3 4 5 6 show ?thesis by blast
qed

theorem invalid_input_iff_witness:
  "is_nonempty_string (Str ''vitalik.eth'')
   \<and> fetchMostActiveChannelImage
        (failing_env (status_error 401 ''AxiosError: Request failed with status code 401''))
        (Str ''vitalik.eth'') = Inl AuthFailure
   \<and> fetchMostActiveChannelImage (failing_env timeout_error) Absent = Inl InvalidInput
   \<and> fetchMostActiveChannelImage (failing_env timeout_error) (Str []) = Inl InvalidInput
   \<and> fetchMostActiveChannelImage (failing_env timeout_error) (StrArray [''0xa'', ''0xb''])
       = Inl InvalidInput"
proof -
  let ?e = "status_error 401 ''AxiosError: Request failed with status code 401''"
  have ne: "''vitalik.eth'' \<noteq> []" by simp
  have th: "user_lookup (failing_env ?e) ''vitalik.eth'' = Thrown ?e"
    by (simp add: failing_env_def)
  from invalid_input_iff [of "failing_env ?e" "Str ''vitalik.eth''" "''vitalik.eth''" "[]"] ne th
  have "fetchMostActiveChannelImage (failing_env ?e) (Str ''vitalik.eth'')
          = catch_block ''vitalik.eth'' ?e"
    by blast
  then have a: "fetchMostActiveChannelImage (failing_env ?e) (Str ''vitalik.eth'') = Inl AuthFailure"
    by (simp add: catch_block_def status_error_def)
  have b: "fetchMostActiveChannelImage (failing_env timeout_error) Absent = Inl InvalidInput"
    using invalid_input_iff [of "failing_env timeout_error" Absent "[]" "[]"]
    by (simp add: is_nonempty_string_def)
  have c: "fetchMostActiveChannelImage (failing_env timeout_error) (Str []) = Inl InvalidInput"
    using invalid_input_iff [of "failing_env timeout_error" "Str []" "[]" "[]"]
    by (simp add: is_nonempty_string_def)
  have d: "fetchMostActiveChannelImage (failing_env timeout_error) (StrArray [''0xa'', ''0xb''])
             = Inl InvalidInput"
    using invalid_input_iff [of "failing_env timeout_error" Absent "[]" "[''0xa'', ''0xb'']"]
    by blast
  from a b c d show ?thesis by (simp add: is_nonempty_string_def)
qed

text \<open>
  Claim C10. \<^verbatim>\<open>fetchFirstMintedArtwork\<close> is \<^verbatim>\<open>fetchMostActiveChannelImage\<close>: on every
  environment and address both return the same value or fail with the same error.
\<close>

theorem alias_same_function:
  "fetchFirstMintedArtwork env a = fetchMostActiveChannelImage env a"
  by (simp add: fetchFirstMintedArtwork_def)

subsection \<open>The handler\<close>

text \<open>
  What the handler answers to the errors of the resolver: 400 to \<open>InvalidInput\<close>, 503
  to the three status errors, and 429 to a wrapped failure whose cause is rendered with the
  digits 429, as the rejection of a request with that status is.
\<close>

lemma error_response_invalid_input:
  "error_response env InvalidInput =
     \<lparr>status = 400, headers = [],
      body = Json \<lparr>error = ''Invalid Ethereum address provided'', retryAfter = None,
                   message_field = Some ''Please provide a valid Ethereum address in 0x format.''\<rparr>\<rparr>"
  by (simp add: error_response_def)

lemma error_response_503:
  "e \<in> {AuthFailure, Forbidden, UpstreamServerError} \<Longrightarrow>
   status (error_response env e) = 503 \<and> headers (error_response env e) = [(''Retry-After'', Text ''30'')]"
  by (auto simp: error_response_def)

lemma js_includes_Nil: "js_includes s []"
  by (cases s) simp_all

lemma js_includes_append_right: "js_includes ys sub \<Longrightarrow> js_includes (xs @ ys) sub"
  by (induction xs) (auto simp: js_includes_Nil)

lemma wrapped_429_answered_429:
  "js_includes cause ''429'' \<Longrightarrow>
   status (error_response env (UpstreamUnavailable addr cause)) = 429
   \<and> headers (error_response env (UpstreamUnavailable addr cause)) =
       [(''Retry-After'', Text ''60''), (''X-RateLimit-Reset'', IsoTime (now env + 60000))]"
proof -
  assume "js_includes cause ''429''"
  from js_includes_append_right
         [OF this, of "''Failed to fetch most active channel image for address '' @ addr @ '': ''"]
  have "js_includes (message (UpstreamUnavailable addr cause)) ''429''"
    by (simp only: message.simps append_assoc)
  then show ?thesis by (simp add: error_response_def)
qed

text \<open>
  Claim C5 at an address whose digits contain \<^verbatim>\<open>429\<close>, with an identity lookup that
  times out: the resolver fails with the catch-all error, whose message holds the address,
  and the handler answers 429 with \<^verbatim>\<open>Retry-After: 60\<close>. The same failure at an address
  without these digits is answered 503.
\<close>

theorem address_digits_read_as_rate_limit:
  "fetchMostActiveChannelImage (failing_env timeout_error)
     (Str ''0x0000000000000000000000000000000000000429'')
     = Inl (UpstreamUnavailable ''0x0000000000000000000000000000000000000429''
             ''AxiosError: timeout of 10000ms exceeded'')
   \<and> status (handler (failing_env timeout_error)
        (Str ''0x0000000000000000000000000000000000000429'')) = 429
   \<and> headers (handler (failing_env timeout_error)
        (Str ''0x0000000000000000000000000000000000000429''))
       = [(''Retry-After'', Text ''60''), (''X-RateLimit-Reset'', IsoTime 61000)]
   \<and> status (handler (failing_env timeout_error)
        (Str ''0x0000000000000000000000000000000000000529'')) = 503"
  by (simp add: handler_defs timeout_error_def)

text \<open>
  Claim C6. When the address is present, the template has loaded and the resolver returns
  \<^verbatim>\<open>null\<close>, the handler answers 200 with the PNG headers; the canvas has the template's
  size and holds the template followed by the placeholder artwork, or the template alone
  when the placeholder fails to load.
\<close>

theorem not_found_renders_placeholder:
  assumes "truthy a"
    and "loadImage env (templatePath env) = Some t"
    and "fetchMostActiveChannelImage env a = Inr None"
  shows "handler env a =
     \<lparr>status = 200,
      headers = [(''Content-Type'', Text ''image/png''),
                 (''Cache-Control'', Text ''public, max-age=300''),
                 (''X-Content-Type-Options'', Text ''nosniff''),
                 (''X-Frame-Options'', Text ''DENY'')],
      body = Png \<lparr>canvas_width = width t, canvas_height = height t,
                  ops = DrawImageAt t 0 0 #
                        (case loadImage env placeholder_url of
                           None \<Rightarrow> []
                         | Some p \<Rightarrow> draw_artwork (width t) (height t) p)\<rparr>\<rparr>"
  using assms
  by (simp add: handler_def render_def choose_artwork_def Let_def split: option.splits)

text \<open>
  The theorem at an identity lookup rejected with status 404.
\<close>

theorem not_found_renders_placeholder_witness:
  "truthy (Str ''0xabc'')
   \<and> fetchMostActiveChannelImage (failing_env not_found_error) (Str ''0xabc'') = Inr None
   \<and> handler (failing_env not_found_error) (Str ''0xabc'') =
     \<lparr>status = 200,
      headers = [(''Content-Type'', Text ''image/png''),
                 (''Cache-Control'', Text ''public, max-age=300''),
                 (''X-Content-Type-Options'', Text ''nosniff''),
                 (''X-Frame-Options'', Text ''DENY'')],
      body = Png \<lparr>canvas_width = 1000, canvas_height = 1000,
                  ops = [DrawImageAt \<lparr>width = 1000, height = 1000\<rparr> 0 0,
                         DrawImageScaled \<lparr>width = 200, height = 100\<rparr> (1651 / 10) 304 670 335,
                         StrokeStyle ''rgba(255, 255, 255, 0.3)'',
                         LineWidth 2,
                         StrokeRect (1631 / 10) 302 674 339]\<rparr>\<rparr>"
proof -
  have h1: "truthy (Str ''0xabc'')" by (simp add: truthy_def)
  have h2: "loadImage (failing_env not_found_error) (templatePath (failing_env not_found_error))
              = Some \<lparr>width = 1000, height = 1000\<rparr>"
    by (simp add: failing_env_def templatePath_def example_loader_def)
  have h3: "fetchMostActiveChannelImage (failing_env not_found_error) (Str ''0xabc'') = Inr None"
    by (rule identity_lookup_404 [of _ _ not_found_error])
      (simp_all add: failing_env_def not_found_error_def status_error_def)
  have p: "loadImage (failing_env not_found_error) placeholder_url = Some \<lparr>width = 200, height = 100\<rparr>"
    by (simp add: failing_env_def example_loader_def placeholder_url_def)
  have d: "draw_artwork 1000 1000 \<lparr>width = 200, height = 100\<rparr> =
             [DrawImageScaled \<lparr>width = 200, height = 100\<rparr> (1651 / 10) 304 670 335,
              StrokeStyle ''rgba(255, 255, 255, 0.3)'', LineWidth 2,
              StrokeRect (1631 / 10) 302 674 339]"
    by (simp add: draw_artwork_def display_size_def Let_def)
  from not_found_renders_placeholder [OF h1 h2 h3] h1 h3 p d show ?thesis by simp
qed

text \<open>
  Claim C7. For an artwork of positive width and height the display size keeps the aspect
  ratio and fits the 670 by 670 box: the width is 670 and the height 670 divided by the
  aspect ratio, unless that height exceeds 670, in which case the height is 670 and the
  width 670 times the aspect ratio. The artwork is drawn at the centred position moved
  right by 0.1 and up by 28.5. An artwork twice as wide as high is displayed 670 by 335.
\<close>

theorem display_size_fits:
  assumes "0 < width img" and "0 < height img"
  shows "\<exists>dw dh. display_size (width img) (height img) = Some (dw, dh)
     \<and> 0 < dw \<and> dw \<le> 670 \<and> 0 < dh \<and> dh \<le> 670
     \<and> dw / dh = real (width img) / real (height img)
     \<and> (if 670 / (real (width img) / real (height img)) > 670
         then dh = 670 \<and> dw = 670 * (real (width img) / real (height img))
         else dw = 670 \<and> dh = 670 / (real (width img) / real (height img)))
     \<and> (width img = 2 * height img \<longrightarrow> dw = 670 \<and> dh = 335)
     \<and> hd (draw_artwork cw ch img) =
         DrawImageScaled img ((real cw - dw) / 2 + 0.1) ((real ch - dh) / 2 - 28.5) dw dh"
proof -
  let ?w = "real (width img)" and ?h = "real (height img)"
  have w: "0 < ?w" and h: "0 < ?h" using assms by simp_all
  show ?thesis
  proof (cases "670 / (?w / ?h) > 670")
    case True
    then have lt: "?w < ?h" using w h by (simp add: field_simps)
    have ds: "display_size (width img) (height img) = Some (670 * (?w / ?h), 670)"
      using assms True by (simp add: display_size_def Let_def)
    have b: "670 * (?w / ?h) \<le> 670" using lt w h by (simp add: field_simps)
    have p: "0 < 670 * (?w / ?h)" using w h by simp
    have r: "670 * (?w / ?h) / 670 = ?w / ?h" by simp
    have two: "width img \<noteq> 2 * height img" using lt by auto
    have dr: "hd (draw_artwork cw ch img) =
         DrawImageScaled img ((real cw - 670 * (?w / ?h)) / 2 + 0.1) ((real ch - 670) / 2 - 28.5)
           (670 * (?w / ?h)) 670"
      by (simp add: draw_artwork_def ds Let_def)
    from ds b p r two dr True assms show ?thesis by simp
  next
    case False
    then have ge: "?h \<le> ?w" using w h by (simp add: field_simps)
    have ds: "display_size (width img) (height img) = Some (670, 670 / (?w / ?h))"
      using assms False by (simp add: display_size_def Let_def)
    have b: "670 / (?w / ?h) \<le> 670" using False by simp
    have p: "0 < 670 / (?w / ?h)" using w h by simp
    have r: "670 / (670 / (?w / ?h)) = ?w / ?h" using w h by simp
    have two: "width img = 2 * height img \<longrightarrow> 670 / (?w / ?h) = 335" using h by simp
    have dr: "hd (draw_artwork cw ch img) =
         DrawImageScaled img ((real cw - 670) / 2 + 0.1) ((real ch - 670 / (?w / ?h)) / 2 - 28.5)
           670 (670 / (?w / ?h))"
      by (simp add: draw_artwork_def ds Let_def)
    from ds b p r two dr False assms show ?thesis by simp
  qed
qed

theorem display_size_fits_witness:
  "display_size 200 100 = Some (670, 335)
   \<and> hd (draw_artwork 1000 1000 \<lparr>width = 200, height = 100\<rparr>) =
        DrawImageScaled \<lparr>width = 200, height = 100\<rparr> ((1000 - 670) / 2 + 0.1) ((1000 - 335) / 2 - 28.5) 670 335"
proof -
  have h1: "0 < width \<lparr>width = 200, height = 100\<rparr>" by simp
  have h2: "0 < height \<lparr>width = 200, height = 100\<rparr>" by simp
  from display_size_fits [OF h1 h2, of 1000 1000] obtain dw dh where
    ds: "display_size 200 100 = Some (dw, dh)"
    and two: "dw = 670 \<and> dh = 335"
    and dr: "hd (draw_artwork 1000 1000 \<lparr>width = 200, height = 100\<rparr>) =
         DrawImageScaled \<lparr>width = 200, height = 100\<rparr> ((real 1000 - dw) / 2 + 0.1) ((real 1000 - dh) / 2 - 28.5) dw dh"
    by auto
  from ds two dr show ?thesis by simp
qed

text \<open>
  Claim C8, as amended. Whenever an artwork is drawn at \<open>(x, y)\<close> with size \<open>(w, h)\<close>,
  the calls that follow set the stroke style \<^verbatim>\<open>rgba(255, 255, 255, 0.3)\<close> and the line
  width 2 and stroke the rectangle that lies 2 units outside the artwork on each side:
  from \<open>(x - 2, y - 2)\<close> with size \<open>(w + 4, h + 4)\<close>.
\<close>

theorem border_around_artwork:
  assumes "body (render env t r) = Png c"
    and "DrawImageScaled img x y w h \<in> set (ops c)"
  shows "ops c = [DrawImageAt t 0 0,
                  DrawImageScaled img x y w h,
                  StrokeStyle ''rgba(255, 255, 255, 0.3)'',
                  LineWidth 2,
                  StrokeRect (x - 2) (y - 2) (w + 4) (h + 4)]"
  using assms
  by (auto simp: render_def draw_artwork_def Let_def split: option.splits prod.splits)

theorem border_around_artwork_witness:
  "body (render (failing_env not_found_error) \<lparr>width = 1000, height = 1000\<rparr> None) =
     Png \<lparr>canvas_width = 1000, canvas_height = 1000,
          ops = [DrawImageAt \<lparr>width = 1000, height = 1000\<rparr> 0 0,
                 DrawImageScaled \<lparr>width = 200, height = 100\<rparr> (1651 / 10) 304 670 335,
                 StrokeStyle ''rgba(255, 255, 255, 0.3)'',
                 LineWidth 2,
                 StrokeRect (1651 / 10 - 2) (304 - 2) (670 + 4) (335 + 4)]\<rparr>"
proof -
  let ?t = "\<lparr>width = 1000, height = 1000\<rparr>" and ?p = "\<lparr>width = 200, height = 100\<rparr>"
  let ?c = "\<lparr>canvas_width = 1000, canvas_height = 1000,
             ops = DrawImageAt ?t 0 0 # draw_artwork 1000 1000 ?p\<rparr>"
  have b: "body (render (failing_env not_found_error) ?t None) = Png ?c"
    by (simp add: render_def choose_artwork_def failing_env_def example_loader_def
          placeholder_url_def Let_def)
  have m: "DrawImageScaled ?p (1651 / 10) 304 670 335 \<in> set (ops ?c)"
    by (simp add: draw_artwork_def display_size_def Let_def)
  from border_around_artwork [OF b m] b show ?thesis by simp
qed

text \<open>
  Claim C8 as stated fails: the stroked rectangle is not the artwork's box inset by 2
  units on each side.
\<close>

theorem border_counterexample:
  "draw_artwork 1000 1000 \<lparr>width = 200, height = 100\<rparr> =
     [DrawImageScaled \<lparr>width = 200, height = 100\<rparr> (1651 / 10) 304 670 335,
      StrokeStyle ''rgba(255, 255, 255, 0.3)'', LineWidth 2,
      StrokeRect (1631 / 10) 302 674 339]
   \<and> StrokeRect (1631 / 10) 302 674 339 \<noteq> StrokeRect (1651 / 10 + 2) (304 + 2) (670 - 4) (335 - 4)"
  by (simp add: draw_artwork_def display_size_def Let_def)

end
